theory Spec2Isabelle
  imports Complex_Main "HOL-Library.AList" "HOL-Library.Multiset"
begin

section \<open>Deep Q-learning notebook: data model\<close>

text \<open>
  The notebook is Python on top of PyTorch. Tensor entries and Python floats are
  modelled as real numbers, Python integers as \<open>int\<close>. Exceptions are values of
  \<open>py_error\<close>; a function that can raise returns \<open>py_error + 'a\<close>, and a function
  with a loop that need not end returns an \<open>option\<close>, \<open>None\<close> when it does not return.
\<close>

datatype py_error =
  ValueError | TypeError | KeyError | IndexError | RuntimeError | ZeroDivisionError
  | OverflowError

text \<open>
  \<^verbatim>\<open>Transition = namedtuple('Transition', ('state', 'action', 'reward', 'next_state'))\<close>
  The next state is \<open>None\<close> (the terminal sentinel) or a state tensor.
\<close>

record 's Transition =
  state :: 's
  action :: nat
  reward :: real
  next_state :: "'s option"

subsection \<open>\<open>collections.deque\<close> with a maximum length\<close>

text \<open>
  \<open>deque([], maxlen=capacity)\<close> of the standard library: a negative \<open>maxlen\<close> raises
  \<open>ValueError\<close>; \<open>append\<close> adds the item on the right and, when the deque is then
  longer than \<open>maxlen\<close>, removes one item from the left.
\<close>

record 'a deque =
  items :: "'a list"
  maxlen :: nat

definition deque_new :: "int \<Rightarrow> py_error + 'a deque" where
  "deque_new capacity =
     (if capacity < 0 then Inl ValueError
      else Inr \<lparr>items = [], maxlen = nat capacity\<rparr>)"

definition deque_append :: "'a \<Rightarrow> 'a deque \<Rightarrow> 'a deque" where
  "deque_append x d =
     (let xs = items d @ [x]
      in if maxlen d < length xs then d\<lparr>items := tl xs\<rparr> else d\<lparr>items := xs\<rparr>)"

subsection \<open>\<open>ReplayMemory\<close>\<close>

text \<open>
  The class has the single field \<open>self.memory\<close>, the deque; an object of the class is
  modelled as that deque.
\<close>

type_synonym 's ReplayMemory = "'s Transition deque"

definition ReplayMemory_init :: "int \<Rightarrow> py_error + 's ReplayMemory" where
  "ReplayMemory_init capacity = deque_new capacity"

definition push :: "'s \<Rightarrow> nat \<Rightarrow> real \<Rightarrow> 's option \<Rightarrow> 's ReplayMemory \<Rightarrow> 's ReplayMemory" where
  "push s a r ns m =
     deque_append \<lparr>state = s, action = a, reward = r, next_state = ns\<rparr> m"

definition len :: "'s ReplayMemory \<Rightarrow> nat" where
  "len m = length (items m)"

text \<open>A sequence of \<open>push\<close> calls, one per transition of the list, in order.\<close>

definition push_transition :: "'s Transition \<Rightarrow> 's ReplayMemory \<Rightarrow> 's ReplayMemory" where
  "push_transition t m = push (state t) (action t) (reward t) (next_state t) m"

definition push_all :: "'s Transition list \<Rightarrow> 's ReplayMemory \<Rightarrow> 's ReplayMemory" where
  "push_all ts m = fold push_transition ts m"

subsection \<open>Python's \<open>random\<close> module\<close>

text \<open>
  The module's generator is a state \<open>'g\<close> with two primitive draws:
  \<open>random.random()\<close>, a Python float \<open>'f\<close>, and the generator's \<open>_randbelow(n)\<close>, an
  integer below \<open>n\<close>. Both return the advanced generator. \<open>ceil_log4 x\<close> is
  \<open>_ceil(_log(x, 4))\<close>, which the module computes with the floating-point logarithm
  of \<open>math\<close>; it is a parameter like the generator.
\<close>

record ('g, 'f) Random =
  random_random :: "'g \<Rightarrow> 'f \<times> 'g"
  randbelow :: "'g \<Rightarrow> nat \<Rightarrow> nat \<times> 'g"
  ceil_log4 :: "nat \<Rightarrow> nat"

definition randbelow_in_range :: "('g, 'f) Random \<Rightarrow> bool" where
  "randbelow_in_range R = (\<forall>g n. 0 < n \<longrightarrow> fst (randbelow R g n) < n)"

text \<open>
  The generator after \<open>i\<close> draws of \<open>_randbelow(n)\<close>, and the property that, for a
  given \<open>n\<close>, these draws reach every value below \<open>n\<close> from every state.
\<close>

fun draws :: "('g, 'f) Random \<Rightarrow> nat \<Rightarrow> nat \<Rightarrow> 'g \<Rightarrow> 'g" where
  "draws R n 0 g = g"
| "draws R n (Suc i) g = draws R n i (snd (randbelow R g n))"

definition randbelow_covers :: "('g, 'f) Random \<Rightarrow> nat \<Rightarrow> bool" where
  "randbelow_covers R n = (\<forall>g v. v < n \<longrightarrow> (\<exists>i. fst (randbelow R (draws R n i g) n) = v))"

text \<open>
  \<open>random.sample(population, k)\<close> of the standard library.
  \<^verbatim>\<open>
  n = len(population)
  if not 0 <= k <= n:
      raise ValueError("Sample larger than population or is negative")
  result = [None] * k
  setsize = 21
  if k > 5:
      setsize += 4 ** _ceil(_log(k * 3, 4))
  if n <= setsize:
      pool = list(population)
      for i in range(k):
          j = randbelow(n - i)
          result[i] = pool[j]
          pool[j] = pool[n - i - 1]
  else:
      selected = set()
      for i in range(k):
          j = randbelow(n)
          while j in selected:
              j = randbelow(n)
          selected.add(j)
          result[i] = population[j]
  return result
  \<close>
\<close>

definition setsize :: "('g, 'f) Random \<Rightarrow> nat \<Rightarrow> nat" where
  "setsize R k = (if 5 < k then 21 + 4 ^ ceil_log4 R (k * 3) else 21)"

text \<open>The first loop; the argument \<open>m\<close> is \<open>n - i\<close>.\<close>

fun sample_loop :: "('g, 'f) Random \<Rightarrow> nat \<Rightarrow> 'a list \<Rightarrow> nat \<Rightarrow> 'g \<Rightarrow> 'a list \<times> 'g" where
  "sample_loop R 0 pool m g = ([], g)"
| "sample_loop R (Suc k) pool m g =
     (let (j, g1) = randbelow R g m;
          (result, g2) = sample_loop R k (pool[j := pool ! (m - 1)]) (m - 1) g1
      in (pool ! j # result, g2))"

text \<open>
  The second loop. Its inner loop draws until the position is not selected yet, and
  need not end; \<open>selected\<close> is kept as a list.
\<close>

partial_function (option) draw_unselected ::
  "('g, 'f) Random \<Rightarrow> nat \<Rightarrow> nat list \<Rightarrow> 'g \<Rightarrow> (nat \<times> 'g) option" where
  "draw_unselected R n selected g =
     (case randbelow R g n of
        (j, g1) \<Rightarrow> if j \<in> set selected then draw_unselected R n selected g1 else Some (j, g1))"

fun sample_reject ::
  "('g, 'f) Random \<Rightarrow> nat \<Rightarrow> 'a list \<Rightarrow> nat list \<Rightarrow> 'g \<Rightarrow> ('a list \<times> 'g) option" where
  "sample_reject R 0 population selected g = Some ([], g)"
| "sample_reject R (Suc k) population selected g =
     (case draw_unselected R (length population) selected g of
        None \<Rightarrow> None
      | Some (j, g1) \<Rightarrow>
          (case sample_reject R k population (j # selected) g1 of
             None \<Rightarrow> None
           | Some (result, g2) \<Rightarrow> Some (population ! j # result, g2)))"

definition random_sample ::
  "('g, 'f) Random \<Rightarrow> 'a list \<Rightarrow> int \<Rightarrow> 'g \<Rightarrow> (py_error + ('a list \<times> 'g)) option" where
  "random_sample R population k g =
     (let n = length population
      in if \<not> (0 \<le> k \<and> k \<le> int n) then Some (Inl ValueError)
         else if n \<le> setsize R (nat k) then Some (Inr (sample_loop R (nat k) population n g))
         else
           (case sample_reject R (nat k) population [] g of
              None \<Rightarrow> None
            | Some res \<Rightarrow> Some (Inr res)))"

subsection \<open>The framework and the environment\<close>

text \<open>
  A network's \<open>state_dict()\<close> is an ordered dictionary from parameter names to tensors,
  here an association list from names to the tensors' entries. Both networks are
  instances of the class \<open>DQN\<close>. PyTorch itself is a parameter of the model:
  \<open>forward\<close> is \<open>DQN.forward\<close> on one state (the row of action values), and
  \<open>optimizer_step\<close> stands for the Huber loss between \<open>policy_net(state_batch)\<close> gathered
  at the actions taken and the expected values, \<open>loss.backward()\<close>, the gradient
  clipping and \<open>optimizer.step()\<close>: it returns the new policy parameters and the new
  optimizer state.
\<close>

type_synonym state_dict = "(string \<times> real list) list"

record ('s, 'o) Torch =
  forward :: "state_dict \<Rightarrow> 's \<Rightarrow> real list"
  optimizer_step :: "'o \<Rightarrow> state_dict \<Rightarrow> 's Transition list \<Rightarrow> real list \<Rightarrow> state_dict \<times> 'o"

text \<open>
  The Gymnasium environment: \<open>env.step(action)\<close> returns the observation, the reward
  and the flags \<open>terminated\<close> and \<open>truncated\<close>; \<open>env.action_space.sample()\<close> draws an
  action from the action space's own generator, part of the environment's state.
\<close>

record ('e, 's) Env =
  env_step :: "'e \<Rightarrow> nat \<Rightarrow> ('s \<times> real \<times> bool \<times> bool) \<times> 'e"
  action_space_sample :: "'e \<Rightarrow> nat \<times> 'e"

subsection \<open>Hyper-parameters and global variables\<close>

text \<open>
  The three \<open>EPS\<close> values enter Python float arithmetic and are Python floats \<open>'f\<close>
  (\<open>EPS_DECAY\<close>, which the notebook writes as the integer 10000, is the float the division
  converts it to); \<open>GAMMA\<close> and \<open>TAU\<close> multiply tensors.
\<close>

record 'f hyper =
  BATCH_SIZE :: int
  GAMMA :: real
  EPS_START :: 'f
  EPS_END :: 'f
  EPS_DECAY :: 'f
  TAU :: real

text \<open>The values the notebook sets, the floats written as the reals of their literals.\<close>

definition notebook_hyper :: "real hyper" where
  "notebook_hyper =
     \<lparr>BATCH_SIZE = 128, GAMMA = 99 / 100, EPS_START = 9 / 10, EPS_END = 1 / 10,
      EPS_DECAY = 10000, TAU = 5 / 1000\<rparr>"

record ('s, 'o, 'g, 'e) globals =
  memory :: "'s ReplayMemory"
  policy_net :: state_dict
  target_net :: state_dict
  optimizer :: 'o
  steps_done :: int
  rng :: 'g
  env :: 'e

text \<open>\<open>memory.sample(batch_size)\<close>, which is \<open>random.sample(self.memory, batch_size)\<close>.\<close>

definition sample ::
  "('g, 'f) Random \<Rightarrow> int \<Rightarrow> ('s, 'o, 'g, 'e) globals \<Rightarrow>
     (py_error + ('s Transition list \<times> ('s, 'o, 'g, 'e) globals)) option" where
  "sample R batch_size st =
     (case random_sample R (items (memory st)) batch_size (rng st) of
        None \<Rightarrow> None
      | Some (Inl e) \<Rightarrow> Some (Inl e)
      | Some (Inr (transitions, g)) \<Rightarrow> Some (Inr (transitions, st\<lparr>rng := g\<rparr>)))"

subsection \<open>\<open>select_action\<close>\<close>

text \<open>
  Python's float arithmetic is a parameter of the model: the type \<open>'f\<close> of floats and
  the operations the cell uses. The conversion of an integer (in \<open>-1. * steps_done\<close>)
  raises \<open>OverflowError\<close> when the integer is too large, the division raises
  \<open>ZeroDivisionError\<close> on a zero divisor, \<open>math.exp\<close> raises \<open>OverflowError\<close> when its
  result is out of range; products, sums, differences and comparisons do not raise.
\<close>

record 'f Float =
  float_of_int :: "int \<Rightarrow> py_error + 'f"
  minus_one :: 'f
  fmul :: "'f \<Rightarrow> 'f \<Rightarrow> 'f"
  fdiv :: "'f \<Rightarrow> 'f \<Rightarrow> py_error + 'f"
  fsub :: "'f \<Rightarrow> 'f \<Rightarrow> 'f"
  fadd :: "'f \<Rightarrow> 'f \<Rightarrow> 'f"
  math_exp :: "'f \<Rightarrow> py_error + 'f"
  fgt :: "'f \<Rightarrow> 'f \<Rightarrow> bool"

text \<open>
  \<^verbatim>\<open>
  eps_threshold = EPS_END + (EPS_START - EPS_END) * math.exp(-1. * steps_done / EPS_DECAY)
  \<close>
  The product \<open>-1. * steps_done\<close> converts the counter, the quotient is taken next, then
  the exponential; an exception of any of the three ends the evaluation.
\<close>

definition eps_threshold :: "'f Float \<Rightarrow> 'f hyper \<Rightarrow> int \<Rightarrow> py_error + 'f" where
  "eps_threshold F hp t =
     (case float_of_int F t of
        Inl e \<Rightarrow> Inl e
      | Inr tf \<Rightarrow>
          (case fdiv F (fmul F (minus_one F) tf) (EPS_DECAY hp) of
             Inl e \<Rightarrow> Inl e
           | Inr x \<Rightarrow>
               (case math_exp F x of
                  Inl e \<Rightarrow> Inl e
                | Inr ex \<Rightarrow>
                    Inr (fadd F (EPS_END hp)
                           (fmul F (fsub F (EPS_START hp) (EPS_END hp)) ex)))))"

text \<open>\<open>.max(dim=1)[1]\<close> and \<open>.max(dim=1)[0]\<close> on one row; an empty row raises.\<close>

fun max_index :: "real list \<Rightarrow> nat option" where
  "max_index [] = None"
| "max_index (q # qs) =
     (case max_index qs of
        None \<Rightarrow> Some 0
      | Some i \<Rightarrow> if q < qs ! i then Some (Suc i) else Some 0)"

fun max_value :: "real list \<Rightarrow> real option" where
  "max_value [] = None"
| "max_value (q # qs) = Some (fold max qs q)"

text \<open>
  The draw comes first, then the threshold, whose evaluation may raise before the
  counter is touched, then the increment and the branch.
\<close>

definition select_action ::
  "('g, 'f) Random \<Rightarrow> 'f Float \<Rightarrow> ('s, 'o) Torch \<Rightarrow> ('e, 's) Env \<Rightarrow> 'f hyper \<Rightarrow> 's \<Rightarrow>
     ('s, 'o, 'g, 'e) globals \<Rightarrow> py_error + (nat \<times> ('s, 'o, 'g, 'e) globals)" where
  "select_action R F T E hp s st =
     (let (sample_draw, g) = random_random R (rng st);
          st1 = st\<lparr>rng := g\<rparr>
      in case eps_threshold F hp (steps_done st1) of
           Inl e \<Rightarrow> Inl e
         | Inr eps \<Rightarrow>
             let st2 = st1\<lparr>steps_done := steps_done st1 + 1\<rparr>
             in if fgt F sample_draw eps then
                  (case max_index (forward T (policy_net st2) s) of
                     None \<Rightarrow> Inl RuntimeError
                   | Some a \<Rightarrow> Inr (a, st2))
                else
                  (let (a, e) = action_space_sample E (env st2)
                   in Inr (a, st2\<lparr>env := e\<rparr>)))"

subsection \<open>\<open>optimize_model\<close>\<close>

text \<open>
  \<open>[s for s in batch.next_state if s is not None]\<close>, and the assignment
  \<open>next_state_values[non_final_mask] = values\<close> into the tensor of zeros.
\<close>

fun non_final_next_states :: "'s Transition list \<Rightarrow> 's list" where
  "non_final_next_states [] = []"
| "non_final_next_states (t # ts) =
     (case next_state t of
        None \<Rightarrow> non_final_next_states ts
      | Some s \<Rightarrow> s # non_final_next_states ts)"

fun masked_assign :: "real list \<Rightarrow> bool list \<Rightarrow> real list \<Rightarrow> real list" where
  "masked_assign (z # zs) (True # ms) (v # vs) = v # masked_assign zs ms vs"
| "masked_assign (z # zs) (False # ms) vs = z # masked_assign zs ms vs"
| "masked_assign zs ms vs = zs"

fun max_values :: "real list list \<Rightarrow> real list option" where
  "max_values [] = Some []"
| "max_values (row # rows) =
     (case max_value row of
        None \<Rightarrow> None
      | Some v \<Rightarrow> (case max_values rows of None \<Rightarrow> None | Some vs \<Rightarrow> Some (v # vs)))"

text \<open>
  Lines 390 to 412 of the cell. \<open>torch.cat\<close> of an empty list raises \<open>RuntimeError\<close>,
  so a batch whose transitions are all terminal raises. The target network acts on the
  batch of next states row by row, and \<open>.max(dim=1)[0]\<close> takes the largest value of
  each row. The mask must be as long as the tensor of \<open>BATCH_SIZE\<close> zeros it indexes.
\<close>

definition expected_state_action_values ::
  "('s, 'o) Torch \<Rightarrow> 'f hyper \<Rightarrow> state_dict \<Rightarrow> 's Transition list \<Rightarrow> py_error + real list" where
  "expected_state_action_values T hp tnet transitions =
     (let non_final_mask = map (\<lambda>t. next_state t \<noteq> None) transitions;
          nfs = non_final_next_states transitions;
          reward_batch = map reward transitions
      in if nfs = [] then Inl RuntimeError
         else
           (case max_values (map (forward T tnet) nfs) of
              None \<Rightarrow> Inl RuntimeError
            | Some vs \<Rightarrow>
                if length non_final_mask \<noteq> nat (BATCH_SIZE hp) then Inl IndexError
                else
                  let next_state_values =
                        masked_assign (replicate (nat (BATCH_SIZE hp)) 0) non_final_mask vs
                  in Inr (map2 (\<lambda>v r. v * GAMMA hp + r) next_state_values reward_batch)))"

text \<open>
  The soft update,
  \<^verbatim>\<open>
  for key in policy_net_state_dict:
      target_net_state_dict[key] = policy_net_state_dict[key]*TAU + target_net_state_dict[key]*(1-TAU)
  \<close>
  A key the target dictionary lacks raises \<open>KeyError\<close>; tensors of different shapes
  are refused (both networks are \<open>DQN\<close>s built with the same sizes).
\<close>

fun soft_update :: "real \<Rightarrow> state_dict \<Rightarrow> string list \<Rightarrow> state_dict \<Rightarrow> py_error + state_dict" where
  "soft_update tau psd [] tsd = Inr tsd"
| "soft_update tau psd (key # keys) tsd =
     (case map_of psd key of
        None \<Rightarrow> Inl KeyError
      | Some p \<Rightarrow>
          (case map_of tsd key of
             None \<Rightarrow> Inl KeyError
           | Some t \<Rightarrow>
               if length p \<noteq> length t then Inl RuntimeError
               else soft_update tau psd keys
                      (AList.update key (map2 (\<lambda>x y. x * tau + y * (1 - tau)) p t) tsd)))"

definition optimize_model ::
  "('g, 'f) Random \<Rightarrow> ('s, 'o) Torch \<Rightarrow> 'f hyper \<Rightarrow> ('s, 'o, 'g, 'e) globals \<Rightarrow>
     (py_error + ('s, 'o, 'g, 'e) globals) option" where
  "optimize_model R T hp st =
     (if int (len (memory st)) < BATCH_SIZE hp then Some (Inr st)
      else
        (case sample R (BATCH_SIZE hp) st of
           None \<Rightarrow> None
         | Some (Inl e) \<Rightarrow> Some (Inl e)
         | Some (Inr (transitions, st1)) \<Rightarrow>
             if transitions = [] then Some (Inl TypeError)
             else
               (case expected_state_action_values T hp (target_net st1) transitions of
                  Inl e \<Rightarrow> Some (Inl e)
                | Inr expected \<Rightarrow>
                    let (psd, opt) =
                          optimizer_step T (optimizer st1) (policy_net st1) transitions expected;
                        st2 = st1\<lparr>policy_net := psd, optimizer := opt\<rparr>
                    in (case soft_update (TAU hp) (policy_net st2) (map fst (policy_net st2))
                               (target_net st2) of
                          Inl e \<Rightarrow> Some (Inl e)
                        | Inr tsd \<Rightarrow> Some (Inr (st2\<lparr>target_net := tsd\<rparr>))))))"

subsection \<open>The body of the training loop\<close>

text \<open>
  Lines 552 to 567: select an action, step the environment, build \<open>next_state\<close> and
  store the transition. The result carries \<open>next_state\<close> and \<open>done\<close>.
\<close>

definition store_step ::
  "('g, 'f) Random \<Rightarrow> 'f Float \<Rightarrow> ('s, 'o) Torch \<Rightarrow> ('e, 's) Env \<Rightarrow> 'f hyper \<Rightarrow> 's \<Rightarrow>
     ('s, 'o, 'g, 'e) globals \<Rightarrow>
     py_error + (('s option \<times> bool) \<times> ('s, 'o, 'g, 'e) globals)" where
  "store_step R F T E hp s st =
     (case select_action R F T E hp s st of
        Inl e \<Rightarrow> Inl e
      | Inr (a, st1) \<Rightarrow>
          let ((observation, r, terminated, truncated), e) = env_step E (env st1) a;
              st2 = st1\<lparr>env := e\<rparr>;
              is_done = terminated \<or> truncated;
              ns = (if terminated then None else Some observation)
          in Inr ((ns, is_done), st2\<lparr>memory := push s a r ns (memory st2)\<rparr>))"

text \<open>The whole body: the step above, then one call of \<open>optimize_model\<close>.\<close>

definition training_step ::
  "('g, 'f) Random \<Rightarrow> 'f Float \<Rightarrow> ('s, 'o) Torch \<Rightarrow> ('e, 's) Env \<Rightarrow> 'f hyper \<Rightarrow> 's \<Rightarrow>
     ('s, 'o, 'g, 'e) globals \<Rightarrow>
     (py_error + (('s option \<times> bool) \<times> ('s, 'o, 'g, 'e) globals)) option" where
  "training_step R F T E hp s st =
     (case store_step R F T E hp s st of
        Inl e \<Rightarrow> Some (Inl e)
      | Inr (res, st1) \<Rightarrow>
          (case optimize_model R T hp st1 of
             None \<Rightarrow> None
           | Some (Inl e) \<Rightarrow> Some (Inl e)
           | Some (Inr st2) \<Rightarrow> Some (Inr (res, st2))))"

section \<open>Support vector machine notebook\<close>










section \<open>Example values\<close>

text \<open>
  Transitions over states numbered by naturals, used in the concrete instances below:
  a transition into the next state, a transition into the terminal sentinel, and the
  notebook's hyper-parameters with a batch size of two.
\<close>

definition transition_of :: "nat \<Rightarrow> nat Transition" where
  "transition_of n = \<lparr>state = n, action = 0, reward = real n, next_state = Some (Suc n)\<rparr>"



text \<open>
  A generator whose state counts the draws: \<open>random.random()\<close> gives one half and
  \<open>_randbelow(n)\<close> the count modulo \<open>n\<close>; its logarithm is the exact one, the least
  \<open>e\<close> with \<open>x \<le> 4 ^ e\<close>. Float arithmetic on the reals, without rounding and without a
  range.
\<close>

definition exact_ceil_log4 :: "nat \<Rightarrow> nat" where
  "exact_ceil_log4 x = length (takeWhile (\<lambda>e. 4 ^ e < x) [0..<x])"

definition exact_float :: "real Float" where
  "exact_float =
     \<lparr>float_of_int = (\<lambda>n. Inr (real_of_int n)),
      minus_one = - 1,
      fmul = (\<lambda>x y. x * y),
      fdiv = (\<lambda>x y. if y = 0 then Inl ZeroDivisionError else Inr (x / y)),
      fsub = (\<lambda>x y. x - y),
      fadd = (\<lambda>x y. x + y),
      math_exp = (\<lambda>x. Inr (exp x)),
      fgt = (\<lambda>x y. y < x)\<rparr>"

definition counting_random :: "(nat, real) Random" where
  "counting_random =
     \<lparr>random_random = (\<lambda>g. (1 / 2, Suc g)), randbelow = (\<lambda>g n. (g mod n, Suc g)),
      ceil_log4 = exact_ceil_log4\<rparr>"

text \<open>
  A network with two actions whose values are the first entry of the parameter \<open>w\<close> and
  the number of the state; an optimizer that adds one to every parameter entry and counts
  its steps.
\<close>

definition toy_torch :: "(nat, nat) Torch" where
  "toy_torch =
     \<lparr>forward = (\<lambda>sd s. [(case map_of sd ''w'' of Some (x # xs) \<Rightarrow> x | _ \<Rightarrow> 0), real s]),
      optimizer_step =
        (\<lambda>opt psd ts vs. (map (\<lambda>(k, v). (k, map (\<lambda>x. x + 1) v)) psd, Suc opt))\<rparr>"

text \<open>
  An environment whose state counts the steps: the observation is the new count, the
  reward is one, the episode terminates at the third step and is truncated at the second.
\<close>

definition toy_env :: "(nat, nat) Env" where
  "toy_env =
     \<lparr>env_step = (\<lambda>e a. ((Suc e, 1, 3 \<le> Suc e, Suc e = 2), Suc e)),
      action_space_sample = (\<lambda>e. (e mod 2, Suc e))\<rparr>"

definition toy_globals :: "nat Transition list \<Rightarrow> nat \<Rightarrow> (nat, nat, nat, nat) globals" where
  "toy_globals ts cap =
     \<lparr>memory = \<lparr>items = ts, maxlen = cap\<rparr>,
      policy_net = [(''w'', [1, 2]), (''b'', [3])],
      target_net = [(''w'', [5, 6]), (''b'', [7])],
      optimizer = 0, steps_done = 0, rng = 0, env = 0\<rparr>"

section \<open>Replay buffer: eviction\<close>

lemma push_transition_append: "push_transition t m = deque_append t m"
  by (cases t) (simp add: push_transition_def push_def)

lemma maxlen_deque_append: "maxlen (deque_append x d) = maxlen d"
  by (simp add: deque_append_def Let_def)

lemma items_deque_append:
  "items (deque_append x d) =
     (if maxlen d < Suc (length (items d)) then tl (items d @ [x]) else items d @ [x])"
  by (simp add: deque_append_def Let_def)

lemma drop_after_evict:
  "n < length ys \<Longrightarrow> drop (length (drop 1 ys) - n) (drop 1 ys) = drop (length ys - n) ys"
proof -
  assume "n < length ys"
  then have "length (drop 1 ys) - n + 1 = length ys - n" by simp
  then show ?thesis by (metis drop_drop)
qed

lemma maxlen_push_all: "maxlen (push_all ts m) = maxlen m"
  unfolding push_all_def
  by (induction ts arbitrary: m) (simp_all add: push_transition_append maxlen_deque_append)

text \<open>
  Starting from a deque within its bound, the items after a run of pushes are the last
  \<open>maxlen\<close> of everything stored and pushed.
\<close>

lemma items_push_all:
  "length (items m) \<le> maxlen m \<Longrightarrow>
     items (push_all ts m) = drop (length (items m @ ts) - maxlen m) (items m @ ts)"
proof (induction ts arbitrary: m)
  case Nil
  then show ?case by (simp add: push_all_def)
next
  case (Cons t ts)
  let ?m' = "deque_append t m"
  have step: "push_all (t # ts) m = push_all ts ?m'"
    by (simp add: push_all_def push_transition_append)
  show ?case
  proof (cases "maxlen m < Suc (length (items m))")
    case True
    with Cons.prems have full: "length (items m) = maxlen m" by simp
    have it: "items ?m' = tl (items m @ [t])"
      using True by (simp add: items_deque_append)
    have bound: "length (items ?m') \<le> maxlen ?m'"
      using full by (simp add: it maxlen_deque_append)
    have "items (push_all ts ?m') =
        drop (length (items ?m' @ ts) - maxlen m) (items ?m' @ ts)"
      using Cons.IH [OF bound] by (simp add: maxlen_deque_append)
    also have "items ?m' @ ts = drop 1 (items m @ t # ts)"
      by (cases "items m") (simp_all add: it)
    also have "drop (length (drop 1 (items m @ t # ts)) - maxlen m) (drop 1 (items m @ t # ts))
        = drop (length (items m @ t # ts) - maxlen m) (items m @ t # ts)"
      by (rule drop_after_evict) (simp add: full)
    finally show ?thesis by (simp add: step)
  next
    case False
    have it: "items ?m' = items m @ [t]"
      using False by (simp add: items_deque_append)
    have bound: "length (items ?m') \<le> maxlen ?m'"
      using False by (simp add: it maxlen_deque_append)
    show ?thesis
      using Cons.IH [OF bound] by (simp add: step it maxlen_deque_append)
  qed
qed

lemma len_push_all_le:
  "length (items m) \<le> maxlen m \<Longrightarrow> len (push_all ts m) \<le> maxlen m"
  by (simp add: len_def items_push_all)

lemma ReplayMemory_init_Inr:
  "ReplayMemory_init capacity = Inr m \<Longrightarrow> items m = [] \<and> maxlen m = nat capacity \<and> 0 \<le> capacity"
  by (auto simp: ReplayMemory_init_def deque_new_def split: if_splits)

lemma items_push_all_init:
  assumes "ReplayMemory_init capacity = Inr m"
  shows "items (push_all ts m) = drop (length ts - nat capacity) ts"
proof -
  from assms have m: "items m = []" "maxlen m = nat capacity"
    by (simp_all add: ReplayMemory_init_Inr)
  then have "length (items m) \<le> maxlen m" by simp
  from items_push_all [OF this, of ts] m show ?thesis by simp
qed

text \<open>
  C1. A buffer created with capacity \<open>N\<close> that has received \<open>N + k\<close> pushes holds
  exactly the last \<open>N\<close> transitions pushed, in the order they were pushed: the first
  \<open>k\<close> are gone, and the size is \<open>N\<close>.
\<close>

theorem push_keeps_most_recent:
  assumes "ReplayMemory_init capacity = Inr m"
    and "length ts = nat capacity + k"
  shows "items (push_all ts m) = drop k ts \<and> len (push_all ts m) = nat capacity"
proof -
  have "items (push_all ts m) = drop k ts"
    using items_push_all_init [OF assms(1), of ts] assms(2) by simp
  then show ?thesis
    using assms(2) by (simp add: len_def)
qed

text \<open>
  The instance of the specification: a buffer of capacity 3 receives \<open>A, B, C, D\<close>
  (the transitions numbered 0 to 3) and holds \<open>[B, C, D]\<close>.
\<close>

theorem push_keeps_most_recent_witness:
  "ReplayMemory_init 3 = Inr (\<lparr>items = [], maxlen = 3\<rparr> :: nat ReplayMemory)
   \<and> items (push_all [transition_of 0, transition_of 1, transition_of 2, transition_of 3]
        \<lparr>items = [], maxlen = 3\<rparr>)
     = [transition_of 1, transition_of 2, transition_of 3]
   \<and> len (push_all [transition_of 0, transition_of 1, transition_of 2, transition_of 3]
        \<lparr>items = [], maxlen = 3\<rparr>) = 3"
proof -
  have init: "ReplayMemory_init 3 = Inr (\<lparr>items = [], maxlen = 3\<rparr> :: nat ReplayMemory)"
    by (simp add: ReplayMemory_init_def deque_new_def)
  have n: "length [transition_of 0, transition_of 1, transition_of 2, transition_of 3]
      = nat 3 + 1"
    by simp
  from push_keeps_most_recent [OF init n] init show ?thesis by simp
qed

text \<open>
  C2. For a buffer created with capacity \<open>N\<close> and any sequence of pushes: the size never
  exceeds \<open>N\<close>, and the contents are the tail of the sequence of pushes, oldest first.
  A push into a buffer whose size equals the capacity removes exactly the head, the
  transition inserted earliest, and keeps all others in order with the new one last
  (with capacity 0 the buffer stays empty: the transition pushed is itself the one
  removed). A push into a buffer below its capacity removes nothing. Which transition
  goes depends on the order of insertion alone.
\<close>

theorem size_bounded_and_oldest_evicted:
  assumes "ReplayMemory_init capacity = Inr m"
  shows "len (push_all ts m) \<le> nat capacity
    \<and> items (push_all ts m) = drop (length ts - nat capacity) ts
    \<and> (len (push_all ts m) = nat capacity \<longrightarrow>
         items (push s a r ns (push_all ts m))
           = tl (items (push_all ts m)
                 @ [\<lparr>state = s, action = a, reward = r, next_state = ns\<rparr>]))
    \<and> (len (push_all ts m) = nat capacity \<and> 0 < capacity \<longrightarrow>
         items (push s a r ns (push_all ts m))
           = tl (items (push_all ts m))
             @ [\<lparr>state = s, action = a, reward = r, next_state = ns\<rparr>])
    \<and> (len (push_all ts m) < nat capacity \<longrightarrow>
         items (push s a r ns (push_all ts m))
           = items (push_all ts m) @ [\<lparr>state = s, action = a, reward = r, next_state = ns\<rparr>])"
proof -
  let ?b = "push_all ts m"
  have ml: "maxlen ?b = nat capacity"
    using assms by (simp add: maxlen_push_all ReplayMemory_init_Inr)
  have its: "items ?b = drop (length ts - nat capacity) ts"
    by (rule items_push_all_init [OF assms])
  have bound: "len ?b \<le> nat capacity"
    by (simp add: len_def its)
  have full: "len ?b = nat capacity \<Longrightarrow>
      items (push s a r ns ?b)
        = tl (items ?b @ [\<lparr>state = s, action = a, reward = r, next_state = ns\<rparr>])"
    by (simp add: push_def items_deque_append ml len_def)
  have full_pos: "len ?b = nat capacity \<Longrightarrow> 0 < capacity \<Longrightarrow>
      items (push s a r ns ?b)
        = tl (items ?b) @ [\<lparr>state = s, action = a, reward = r, next_state = ns\<rparr>]"
  proof -
    assume a1: "len ?b = nat capacity" and a2: "0 < capacity"
    then have "items ?b \<noteq> []" by (auto simp: len_def)
    with full [OF a1] show ?thesis by simp
  qed
  have below: "len ?b < nat capacity \<Longrightarrow>
      items (push s a r ns ?b)
        = items ?b @ [\<lparr>state = s, action = a, reward = r, next_state = ns\<rparr>]"
    by (simp add: push_def items_deque_append ml len_def)
  from bound its full full_pos below show ?thesis by blast
qed

text \<open>
  A buffer of capacity 3 holding \<open>A, B, C\<close> is full; pushing \<open>D\<close> removes \<open>A\<close>, the
  transition inserted first.
\<close>

theorem size_bounded_and_oldest_evicted_witness:
  "ReplayMemory_init 3 = Inr (\<lparr>items = [], maxlen = 3\<rparr> :: nat ReplayMemory)
   \<and> len (push_all [transition_of 0, transition_of 1, transition_of 2]
        \<lparr>items = [], maxlen = 3\<rparr>) = 3
   \<and> items (push 3 0 3 (Some 4)
        (push_all [transition_of 0, transition_of 1, transition_of 2]
           \<lparr>items = [], maxlen = 3\<rparr>))
     = [transition_of 1, transition_of 2, transition_of 3]"
proof -
  have init: "ReplayMemory_init 3 = Inr (\<lparr>items = [], maxlen = 3\<rparr> :: nat ReplayMemory)"
    by (simp add: ReplayMemory_init_def deque_new_def)
  note fact = size_bounded_and_oldest_evicted [OF init,
      of "[transition_of 0, transition_of 1, transition_of 2]" 3 0 3 "Some 4"]
  from fact have its: "items (push_all [transition_of 0, transition_of 1, transition_of 2]
        \<lparr>items = [], maxlen = 3\<rparr>) = [transition_of 0, transition_of 1, transition_of 2]"
    by simp
  then have full: "len (push_all [transition_of 0, transition_of 1, transition_of 2]
        \<lparr>items = [], maxlen = 3\<rparr>) = 3"
    by (simp add: len_def)
  from fact full its init show ?thesis
    by (simp add: transition_of_def)
qed

section \<open>Replay buffer: sampling\<close>

lemma distinct_of_submset:
  "mset xs \<subseteq># mset ys \<Longrightarrow> distinct ys \<Longrightarrow> distinct xs"
proof (induction xs arbitrary: ys)
  case Nil
  then show ?case by simp
next
  case (Cons x xs)
  from Cons.prems(1) have xin: "x \<in> set ys"
    by (metis insert_subset_eq_iff mset.simps(2) set_mset_mset)
  from Cons.prems(1) have "mset xs \<subseteq># mset ys - {#x#}"
    by (simp add: insert_subset_eq_iff)
  then have sub: "mset xs \<subseteq># mset (remove1 x ys)" by simp
  have d: "distinct (remove1 x ys)" using Cons.prems(2) by simp
  from Cons.IH [OF sub d] have dx: "distinct xs" .
  have "set xs \<subseteq> set (remove1 x ys)"
    using set_mset_mono [OF sub] by (simp only: set_mset_mset)
  then have "x \<notin> set xs"
    using Cons.prems(2) by auto
  with dx show ?case by simp
qed

text \<open>
  One round of the selection loop moves the last live item of the pool into the place of
  the chosen one: the live items after the round, with the chosen one, are the live
  items before it.
\<close>

lemma mset_take_update:
  assumes "j < m" and "m \<le> length pool"
  shows "mset (take (m - 1) (pool[j := pool ! (m - 1)])) + {#pool ! j#} = mset (take m pool)"
proof -
  from assms obtain m' where m: "m = Suc m'" by (cases m) auto
  have tk: "take m pool = take m' pool @ [pool ! m']"
    using assms m by (simp add: take_Suc_conv_app_nth)
  show ?thesis
  proof (cases "j = m'")
    case True
    then show ?thesis using tk m by simp
  next
    case False
    with assms m have jl: "j < m'" by simp
    then have jt: "j < length (take m' pool)" using assms m by simp
    have "take m' (pool[j := pool ! m']) = (take m' pool)[j := pool ! m']"
      by (simp add: take_update_swap)
    moreover have "(take m' pool) ! j = pool ! j" using jl by simp
    moreover have "pool ! j \<in># mset (take m' pool)"
      using jt jl by (metis in_set_conv_nth nth_take set_mset_mset)
    ultimately show ?thesis
      using tk m jt by (simp add: mset_update)
  qed
qed

lemma sample_loop_mset:
  assumes "randbelow_in_range R"
  shows "k \<le> m \<Longrightarrow> m \<le> length pool \<Longrightarrow>
    mset (fst (sample_loop R k pool m g)) \<subseteq># mset (take m pool)
    \<and> length (fst (sample_loop R k pool m g)) = k"
proof (induction k arbitrary: pool m g)
  case 0
  then show ?case by simp
next
  case (Suc k)
  obtain j g1 where rb: "randbelow R g m = (j, g1)" by (cases "randbelow R g m")
  from Suc.prems have mpos: "0 < m" by simp
  with assms rb have jm: "j < m"
    unfolding randbelow_in_range_def by (metis fst_conv)
  let ?pool = "pool[j := pool ! (m - 1)]"
  obtain res g2 where rec: "sample_loop R k ?pool (m - 1) g1 = (res, g2)"
    by (cases "sample_loop R k ?pool (m - 1) g1")
  have "k \<le> m - 1" "m - 1 \<le> length ?pool" using Suc.prems by simp_all
  from Suc.IH [OF this, of g1] rec
  have ih: "mset res \<subseteq># mset (take (m - 1) ?pool)" "length res = k" by simp_all
  have "mset (pool ! j # res) \<subseteq># mset (take (m - 1) ?pool) + {#pool ! j#}"
    using ih(1) by simp
  also have "\<dots> = mset (take m pool)"
    using mset_take_update [OF jm] Suc.prems by simp
  finally show ?case using rb rec ih(2) by simp
qed

text \<open>The loop only moves items: it commutes with a map over the pool.\<close>

lemma sample_loop_map:
  assumes "randbelow_in_range R"
  shows "k \<le> m \<Longrightarrow> m \<le> length pool \<Longrightarrow>
    sample_loop R k (map f pool) m g
      = (map f (fst (sample_loop R k pool m g)), snd (sample_loop R k pool m g))"
proof (induction k arbitrary: pool m g)
  case 0
  then show ?case by simp
next
  case (Suc k)
  obtain j g1 where rb: "randbelow R g m = (j, g1)" by (cases "randbelow R g m")
  from Suc.prems have mpos: "0 < m" by simp
  with assms rb have jm: "j < m"
    unfolding randbelow_in_range_def by (metis fst_conv)
  let ?pool = "pool[j := pool ! (m - 1)]"
  have upd: "(map f pool)[j := map f pool ! (m - 1)] = map f ?pool"
    using Suc.prems mpos by (simp add: map_update)
  have "k \<le> m - 1" "m - 1 \<le> length ?pool" using Suc.prems by simp_all
  from Suc.IH [OF this, of g1]
  show ?case using rb upd jm Suc.prems by (simp add: split_beta)
qed

text \<open>
  The positions the loop selects: the result of the loop on the list of positions.
  They are pairwise distinct and within the population.
\<close>

lemma sample_loop_positions:
  assumes "randbelow_in_range R" and "k \<le> length xs"
  shows "\<exists>idxs. distinct idxs \<and> set idxs \<subseteq> {..<length xs} \<and> length idxs = k
    \<and> fst (sample_loop R k xs (length xs) g) = map (\<lambda>i. xs ! i) idxs"
proof -
  let ?n = "length xs"
  let ?idxs = "fst (sample_loop R k [0..<?n] ?n g)"
  have sub: "mset ?idxs \<subseteq># mset [0..<?n]" and l: "length ?idxs = k"
    using sample_loop_mset [OF assms(1), of k ?n "[0..<?n]" g] assms(2) by simp_all
  have d: "distinct ?idxs"
    using sub by (rule distinct_of_submset) simp
  have s: "set ?idxs \<subseteq> {..<?n}"
    using set_mset_mono [OF sub] by auto
  have "xs = map (\<lambda>i. xs ! i) [0..<?n]"
    by (simp add: map_nth)
  then have "sample_loop R k xs ?n g = sample_loop R k (map (\<lambda>i. xs ! i) [0..<?n]) ?n g"
    by simp
  also have "\<dots> = (map (\<lambda>i. xs ! i) ?idxs, snd (sample_loop R k [0..<?n] ?n g))"
    using sample_loop_map [OF assms(1), of k ?n "[0..<?n]" "\<lambda>i. xs ! i" g] assms(2) by simp
  finally have "fst (sample_loop R k xs ?n g) = map (\<lambda>i. xs ! i) ?idxs" by simp
  with d s l show ?thesis by blast
qed


text \<open>
  The entries at pairwise distinct positions of a list are, as a multiset, part of it.
\<close>

lemma mset_positions:
  assumes "distinct idxs" and "set idxs \<subseteq> {..<length xs}"
  shows "mset (map (\<lambda>i. xs ! i) idxs) \<subseteq># mset xs"
proof -
  have "mset idxs \<subseteq># mset [0..<length xs]"
  proof (rule mset_subset_eqI)
    fix a
    show "count (mset idxs) a \<le> count (mset [0..<length xs]) a"
    proof (cases "a \<in> set idxs")
      case True
      with assms(2) have "a \<in> set [0..<length xs]" by auto
      then have "count (mset [0..<length xs]) a = 1"
        using distinct_upt [of 0 "length xs"] by (simp add: distinct_count_atmost_1)
      moreover from True assms(1) have "count (mset idxs) a = 1"
        by (simp add: distinct_count_atmost_1)
      ultimately show ?thesis by simp
    next
      case False
      then have "count (mset idxs) a = 0" by simp
      then show ?thesis by linarith
    qed
  qed
  then have A: "image_mset (\<lambda>i. xs ! i) (mset idxs)
      \<subseteq># image_mset (\<lambda>i. xs ! i) (mset [0..<length xs])"
    by (rule image_mset_subseteq_mono)
  have "image_mset (\<lambda>i. xs ! i) (mset [0..<length xs])
      = mset (map (\<lambda>i. xs ! i) [0..<length xs])"
    by (rule mset_map [symmetric])
  also have "\<dots> = mset xs" by (simp only: map_nth)
  finally have B: "image_mset (\<lambda>i. xs ! i) (mset [0..<length xs]) = mset xs" .
  from A show ?thesis unfolding B mset_map .
qed

text \<open>
  The inner loop of the second branch returns, with a position not selected before,
  when the draws of the generator reach such a position.
\<close>

lemma draw_unselected_reaches:
  assumes "randbelow_in_range R" and "0 < n"
  shows "fst (randbelow R (draws R n i g) n) \<notin> set sel \<Longrightarrow>
    \<exists>j g1. draw_unselected R n sel g = Some (j, g1) \<and> j < n \<and> j \<notin> set sel"
proof (induction i arbitrary: g)
  case 0
  obtain j g1 where rb: "randbelow R g n = (j, g1)" by (cases "randbelow R g n")
  with 0 have nj: "j \<notin> set sel" by simp
  from assms rb have "j < n" unfolding randbelow_in_range_def by (metis fst_conv)
  with nj rb show ?case
    by (subst draw_unselected.simps) simp
next
  case (Suc i)
  obtain j g1 where rb: "randbelow R g n = (j, g1)" by (cases "randbelow R g n")
  from assms rb have jn: "j < n" unfolding randbelow_in_range_def by (metis fst_conv)
  show ?case
  proof (cases "j \<in> set sel")
    case True
    from Suc.prems rb have "fst (randbelow R (draws R n i g1) n) \<notin> set sel" by simp
    from Suc.IH [OF this] obtain j' g' where
      "draw_unselected R n sel g1 = Some (j', g')" "j' < n" "j' \<notin> set sel"
      by blast
    with True rb show ?thesis
      by (subst draw_unselected.simps) simp
  next
    case False
    with jn rb show ?thesis
      by (subst draw_unselected.simps) simp
  qed
qed

lemma draw_unselected_returns:
  assumes "randbelow_in_range R" and "randbelow_covers R n"
    and "v < n" and "v \<notin> set sel"
  shows "\<exists>j g1. draw_unselected R n sel g = Some (j, g1) \<and> j < n \<and> j \<notin> set sel"
proof -
  from assms(2,3) obtain i where "fst (randbelow R (draws R n i g) n) = v"
    unfolding randbelow_covers_def by blast
  with assms(4) have "fst (randbelow R (draws R n i g) n) \<notin> set sel" by simp
  moreover from assms(3) have "0 < n" by simp
  ultimately show ?thesis
    using draw_unselected_reaches [OF assms(1)] by blast
qed

text \<open>
  The second loop returns the entries at \<open>k\<close> pairwise distinct positions, none of them
  selected before, as long as enough positions are left.
\<close>

lemma sample_reject_positions:
  assumes "randbelow_in_range R" and "randbelow_covers R (length xs)"
  shows "set sel \<subseteq> {..<length xs} \<Longrightarrow> card (set sel) + k \<le> length xs \<Longrightarrow>
    \<exists>idxs g'. sample_reject R k xs sel g = Some (map (\<lambda>i. xs ! i) idxs, g')
      \<and> distinct idxs \<and> set idxs \<subseteq> {..<length xs} - set sel \<and> length idxs = k"
proof (induction k arbitrary: sel g)
  case 0
  then show ?case by simp
next
  case (Suc k)
  from Suc.prems have "card (set sel) < card {..<length xs}" by simp
  with Suc.prems(1) have "set sel \<noteq> {..<length xs}" by auto
  with Suc.prems(1) obtain v where v: "v < length xs" "v \<notin> set sel" by auto
  from draw_unselected_returns [OF assms v] obtain j g1 where
    d: "draw_unselected R (length xs) sel g = Some (j, g1)" and j: "j < length xs" "j \<notin> set sel"
    by blast
  have s1: "set (j # sel) \<subseteq> {..<length xs}" using Suc.prems(1) j(1) by simp
  have "card (set (j # sel)) = Suc (card (set sel))" using j(2) by simp
  with Suc.prems(2) have c1: "card (set (j # sel)) + k \<le> length xs" by simp
  from Suc.IH [OF s1 c1, of g1] obtain idxs g' where
    r: "sample_reject R k xs (j # sel) g1 = Some (map (\<lambda>i. xs ! i) idxs, g')"
    and i: "distinct idxs" "set idxs \<subseteq> {..<length xs} - set (j # sel)" "length idxs = k"
    by blast
  have "sample_reject R (Suc k) xs sel g = Some (map (\<lambda>i. xs ! i) (j # idxs), g')"
    by (simp add: d r)
  moreover have "distinct (j # idxs)" using i(1,2) by auto
  moreover have "set (j # idxs) \<subseteq> {..<length xs} - set sel" using i(2) j by auto
  moreover have "length (j # idxs) = Suc k" using i(3) by simp
  ultimately show ?case by blast
qed

text \<open>
  Both branches of \<open>random.sample\<close>: for \<open>k\<close> up to the size of the population the call
  returns the entries at \<open>k\<close> pairwise distinct positions; the second branch needs the
  draws to reach every position.
\<close>

lemma random_sample_positions:
  assumes "randbelow_in_range R"
    and "setsize R (nat k) < length xs \<longrightarrow> randbelow_covers R (length xs)"
    and "0 \<le> k" and "k \<le> int (length xs)"
  shows "\<exists>idxs g'. random_sample R xs k g = Some (Inr (map (\<lambda>i. xs ! i) idxs, g'))
      \<and> distinct idxs \<and> set idxs \<subseteq> {..<length xs} \<and> length idxs = nat k"
proof (cases "length xs \<le> setsize R (nat k)")
  case True
  from assms(3,4) have kb: "nat k \<le> length xs" by simp
  from sample_loop_positions [OF assms(1) kb, of g] obtain idxs where
    "distinct idxs" "set idxs \<subseteq> {..<length xs}" "length idxs = nat k"
    "fst (sample_loop R (nat k) xs (length xs) g) = map (\<lambda>i. xs ! i) idxs"
    by blast
  moreover have "random_sample R xs k g = Some (Inr (sample_loop R (nat k) xs (length xs) g))"
    using True assms(3,4) by (simp add: random_sample_def)
  ultimately show ?thesis
    by (metis prod.collapse)
next
  case False
  with assms(2) have cov: "randbelow_covers R (length xs)" by simp
  have "set ([] :: nat list) \<subseteq> {..<length xs}" by simp
  moreover have "card (set ([] :: nat list)) + nat k \<le> length xs" using assms(3,4) by simp
  ultimately obtain idxs g' where
    r: "sample_reject R (nat k) xs [] g = Some (map (\<lambda>i. xs ! i) idxs, g')"
    and i: "distinct idxs" "set idxs \<subseteq> {..<length xs} - set ([] :: nat list)" "length idxs = nat k"
    using sample_reject_positions [OF assms(1) cov, where sel = "[]" and k = "nat k" and g = g]
    by blast
  have "random_sample R xs k g = Some (Inr (map (\<lambda>i. xs ! i) idxs, g'))"
    using False assms(3,4) by (simp add: random_sample_def r)
  with i show ?thesis by auto
qed


text \<open>A batch size above the size of the buffer raises.\<close>

lemma sample_too_large:
  "int (len (memory st)) < b \<Longrightarrow> sample R b st = Some (Inl ValueError)"
  by (simp add: sample_def random_sample_def len_def)

text \<open>
  C3. For a generator whose \<open>_randbelow\<close> stays below its argument (and, where the
  buffer is larger than the size up to which \<open>random.sample\<close> uses its first loop, whose
  draws reach every position), every state of the program and every batch size \<open>b\<close>
  from 0 to the current size of the buffer: \<open>memory.sample(b)\<close> returns, without
  raising, a list of exactly \<open>b\<close> transitions, the entries of the buffer at \<open>b\<close>
  pairwise distinct positions (so every one is an element of the buffer, none is
  returned more often than the buffer holds it, and they are pairwise different values
  when the buffer's entries are). The buffer and its size are as before; of the
  program's state only the generator has advanced.
\<close>

theorem sample_distinct_and_nondestructive:
  assumes "randbelow_in_range R"
    and "setsize R (nat b) < len (memory st) \<longrightarrow> randbelow_covers R (len (memory st))"
    and "0 \<le> b"
    and "b \<le> int (len (memory st))"
  shows "\<exists>ts st' idxs.
      sample R b st = Some (Inr (ts, st'))
    \<and> length ts = nat b
    \<and> distinct idxs
    \<and> set idxs \<subseteq> {..<len (memory st)}
    \<and> ts = map (\<lambda>i. items (memory st) ! i) idxs
    \<and> set ts \<subseteq> set (items (memory st))
    \<and> mset ts \<subseteq># mset (items (memory st))
    \<and> (distinct (items (memory st)) \<longrightarrow> distinct ts)
    \<and> memory st' = memory st
    \<and> len (memory st') = len (memory st)
    \<and> st' = st\<lparr>rng := rng st'\<rparr>"
proof -
  let ?xs = "items (memory st)"
  from random_sample_positions [of R b ?xs "rng st"] assms
  obtain idxs g' where r: "random_sample R ?xs b (rng st) = Some (Inr (map (\<lambda>i. ?xs ! i) idxs, g'))"
    and i: "distinct idxs" "set idxs \<subseteq> {..<length ?xs}" "length idxs = nat b"
    unfolding len_def by blast
  let ?ts = "map (\<lambda>i. ?xs ! i) idxs"
  have run: "sample R b st = Some (Inr (?ts, st\<lparr>rng := g'\<rparr>))"
    by (simp add: sample_def r)
  have sub: "mset ?ts \<subseteq># mset ?xs"
    by (rule mset_positions [OF i(1,2)])
  have mem: "set ?ts \<subseteq> set ?xs"
    using set_mset_mono [OF sub] by (simp only: set_mset_mset)
  have dv: "distinct ?xs \<longrightarrow> distinct ?ts"
    using distinct_of_submset [OF sub] by blast
  have l: "length ?ts = nat b" using i(3) by simp
  show ?thesis
    using run l i(1,2) mem sub dv
    by (intro exI [of _ ?ts] exI [of _ "st\<lparr>rng := g'\<rparr>"] exI [of _ idxs])
       (simp add: len_def)
qed

text \<open>
  The counting generator stays below its argument and its draws reach every position.
\<close>

lemma counting_random_in_range: "randbelow_in_range counting_random"
  by (simp add: randbelow_in_range_def counting_random_def)

lemma draws_counting_random: "draws counting_random n i g = g + i"
  by (induction i arbitrary: g) (simp_all add: counting_random_def)

lemma counting_random_covers: "randbelow_covers counting_random n"
  unfolding randbelow_covers_def
proof (intro allI impI)
  fix g v :: nat
  assume v: "v < n"
  let ?i = "(n - g mod n) + v"
  have "g + (n - g mod n) = n * (g div n) + n"
  proof -
    have "g mod n \<le> n" using v by (simp add: less_imp_le)
    moreover have "g = n * (g div n) + g mod n" by simp
    ultimately show ?thesis by linarith
  qed
  then have "g + ?i = n * (g div n + 1) + v" by (simp add: algebra_simps)
  then have "(g + ?i) mod n = (n * (g div n + 1) + v) mod n" by (rule arg_cong)
  also have "\<dots> = v mod n" by (rule mod_mult_self4)
  also have "\<dots> = v" using v by (rule mod_less)
  finally have "fst (randbelow counting_random (draws counting_random n ?i g) n) = v"
    by (simp only: draws_counting_random) (simp add: counting_random_def)
  then show "\<exists>i. fst (randbelow counting_random (draws counting_random n i g) n) = v" ..
qed

text \<open>
  With the exact logarithm the first loop runs up to 1045 entries for the notebook's
  batch size of 128; the buffer of the notebook holds up to 10000.
\<close>

lemma setsize_notebook: "setsize counting_random 128 = 1045"
proof -
  have "exact_ceil_log4 384 = 5" by code_simp
  then show ?thesis by (simp add: setsize_def counting_random_def)
qed

text \<open>
  Two calls with the counting generator. A buffer holding the transitions numbered
  0, 1, 2 is within the size of the first loop. A buffer holding those numbered 0 to 21
  is above it for a batch of two (\<open>setsize\<close> is 21), so the second loop runs. Both
  return the transitions 0 and 1 and leave the buffer as it was.
\<close>

lemma toy_sample_small:
  "sample counting_random 2 (toy_globals [transition_of 0, transition_of 1, transition_of 2] 3)
     = Some (Inr ([transition_of 0, transition_of 1],
            (toy_globals [transition_of 0, transition_of 1, transition_of 2] 3)\<lparr>rng := 2\<rparr>))"
  by (simp add: sample_def random_sample_def setsize_def toy_globals_def counting_random_def
      numeral_2_eq_2)

lemma toy_sample_large:
  "sample counting_random 2 (toy_globals (map transition_of [0..<22]) 22)
     = Some (Inr ([transition_of 0, transition_of 1],
            (toy_globals (map transition_of [0..<22]) 22)\<lparr>rng := 2\<rparr>))"
proof -
  have d0: "draw_unselected counting_random 22 [] 0 = Some (0, 1)"
    by (subst draw_unselected.simps) (simp add: counting_random_def)
  have d1: "draw_unselected counting_random 22 [0] (Suc 0) = Some (Suc 0, 2)"
    by (subst draw_unselected.simps) (simp add: counting_random_def)
  have "sample_reject counting_random (Suc (Suc 0)) (map transition_of [0..<22]) [] 0
      = Some ([transition_of 0, transition_of 1], 2)"
    by (simp add: d0 d1)
  then show ?thesis
    by (simp add: sample_def random_sample_def setsize_def toy_globals_def numeral_2_eq_2)
qed

theorem sample_distinct_and_nondestructive_witness:
  "randbelow_in_range counting_random
   \<and> randbelow_covers counting_random
        (len (memory (toy_globals (map transition_of [0..<22]) 22)))
   \<and> sample counting_random 2 (toy_globals [transition_of 0, transition_of 1, transition_of 2] 3)
     = Some (Inr ([transition_of 0, transition_of 1],
            (toy_globals [transition_of 0, transition_of 1, transition_of 2] 3)\<lparr>rng := 2\<rparr>))
   \<and> setsize counting_random (nat 2)
        < len (memory (toy_globals (map transition_of [0..<22]) 22))
   \<and> sample counting_random 2 (toy_globals (map transition_of [0..<22]) 22)
     = Some (Inr ([transition_of 0, transition_of 1],
            (toy_globals (map transition_of [0..<22]) 22)\<lparr>rng := 2\<rparr>))
   \<and> (\<exists>ts st'.
        sample counting_random 2 (toy_globals (map transition_of [0..<22]) 22)
          = Some (Inr (ts, st'))
        \<and> length ts = 2
        \<and> mset ts \<subseteq># mset (map transition_of [0..<22])
        \<and> memory st' = memory (toy_globals (map transition_of [0..<22]) 22))"
proof -
  let ?st = "toy_globals (map transition_of [0..<22]) 22"
  note h1 = counting_random_in_range
  have h2: "setsize counting_random (nat 2) < len (memory ?st)
      \<longrightarrow> randbelow_covers counting_random (len (memory ?st))"
    using counting_random_covers by simp
  have big: "setsize counting_random (nat 2) < len (memory ?st)"
    by (simp add: setsize_def toy_globals_def len_def)
  have h3: "(0::int) \<le> 2" by simp
  have h4: "(2::int) \<le> int (len (memory ?st))"
    by (simp add: toy_globals_def len_def)
  from sample_distinct_and_nondestructive [OF h1 h2 h3 h4]
  obtain ts st' where "sample counting_random 2 ?st = Some (Inr (ts, st'))" "length ts = nat 2"
    "mset ts \<subseteq># mset (items (memory ?st))" "memory st' = memory ?st"
    by blast
  then have "\<exists>ts st'. sample counting_random 2 ?st = Some (Inr (ts, st')) \<and> length ts = 2
      \<and> mset ts \<subseteq># mset (map transition_of [0..<22])
      \<and> memory st' = memory ?st"
    by (auto simp: toy_globals_def)
  with h1 counting_random_covers [of "len (memory ?st)"] toy_sample_small big toy_sample_large
  show ?thesis by blast
qed

section \<open>Optimization step: the size gate\<close>

text \<open>
  C4. When the buffer holds fewer transitions than the batch size, \<open>optimize_model\<close>
  returns at once: no exception, and the state of the program (buffer, both networks'
  parameters, optimizer, step counter, generator, environment) is the one it was
  called in.
\<close>

theorem optimize_model_gate:
  assumes "int (len (memory st)) < BATCH_SIZE hp"
  shows "optimize_model R T hp st = Some (Inr st)"
  using assms by (simp add: optimize_model_def)

text \<open>An empty buffer of capacity 10 and batch size 5.\<close>

theorem optimize_model_gate_witness:
  "int (len (memory (toy_globals [] 10))) < BATCH_SIZE (notebook_hyper\<lparr>BATCH_SIZE := 5\<rparr>)
   \<and> optimize_model counting_random toy_torch (notebook_hyper\<lparr>BATCH_SIZE := 5\<rparr>)
        (toy_globals [] 10) = Some (Inr (toy_globals [] 10))"
proof -
  have h: "int (len (memory (toy_globals [] 10)))
      < BATCH_SIZE (notebook_hyper\<lparr>BATCH_SIZE := 5\<rparr>)"
    by (simp add: toy_globals_def len_def)
  from optimize_model_gate [OF h] h show ?thesis by simp
qed

section \<open>Optimization step: expected values\<close>

lemma max_value_Some:
  "max_value qs = Some v \<Longrightarrow> qs \<noteq> [] \<and> v = Max (set qs)"
proof (cases qs)
  case Nil
  assume "max_value qs = Some v"
  with Nil show ?thesis by simp
next
  case (Cons q qs')
  assume "max_value qs = Some v"
  with Cons have "v = fold max qs' q" by simp
  also have "\<dots> = Max (set (q # qs'))" by (rule Max.set_eq_fold [symmetric])
  finally show ?thesis using Cons by simp
qed

lemma max_values_Some:
  "max_values rows = Some vs \<Longrightarrow>
     vs = map (\<lambda>row. Max (set row)) rows \<and> (\<forall>row \<in> set rows. row \<noteq> [])"
proof (induction rows arbitrary: vs)
  case Nil
  then show ?case by simp
next
  case (Cons row rows)
  then show ?case
    by (auto split: option.splits dest: max_value_Some)
qed

lemma max_values_total:
  "\<forall>row \<in> set rows. row \<noteq> [] \<Longrightarrow> \<exists>vs. max_values rows = Some vs"
proof (induction rows)
  case Nil
  then show ?case by simp
next
  case (Cons row rows)
  then obtain vs where "max_values rows = Some vs" by auto
  moreover from Cons.prems obtain q qs where "row = q # qs" by (cases row) auto
  ultimately show ?case by simp
qed

lemma masked_assign_zeros:
  "masked_assign (replicate (length ts) 0) (map (\<lambda>t. next_state t \<noteq> None) ts)
       (map f (non_final_next_states ts))
     = map (\<lambda>t. case next_state t of None \<Rightarrow> 0 | Some s \<Rightarrow> f s) ts"
  by (induction ts) (auto split: option.splits)

lemma non_final_next_states_set:
  "set (non_final_next_states ts) = {s. \<exists>t \<in> set ts. next_state t = Some s}"
  by (induction ts) (auto split: option.splits)

lemma expected_values_Inr:
  assumes "expected_state_action_values T hp tnet ts = Inr vs"
  shows "vs = map (\<lambda>t. case next_state t of
                          None \<Rightarrow> reward t
                        | Some s \<Rightarrow> reward t + GAMMA hp * Max (set (forward T tnet s))) ts
    \<and> length ts = nat (BATCH_SIZE hp)
    \<and> non_final_next_states ts \<noteq> []"
proof -
  let ?nfs = "non_final_next_states ts"
  from assms have ne: "?nfs \<noteq> []" and len: "length ts = nat (BATCH_SIZE hp)"
    by (auto simp: expected_state_action_values_def Let_def split: if_splits option.splits)
  from assms ne len obtain ms where ms: "max_values (map (forward T tnet) ?nfs) = Some ms"
    and vs: "vs = map2 (\<lambda>v r. v * GAMMA hp + r)
        (masked_assign (replicate (nat (BATCH_SIZE hp)) 0)
           (map (\<lambda>t. next_state t \<noteq> None) ts) ms) (map reward ts)"
    by (auto simp: expected_state_action_values_def Let_def split: if_splits option.splits)
  from max_values_Some [OF ms]
  have "ms = map (\<lambda>s. Max (set (forward T tnet s))) ?nfs" by (simp add: comp_def)
  then have "masked_assign (replicate (nat (BATCH_SIZE hp)) 0)
      (map (\<lambda>t. next_state t \<noteq> None) ts) ms
    = map (\<lambda>t. case next_state t of None \<Rightarrow> 0 | Some s \<Rightarrow> Max (set (forward T tnet s))) ts"
    using masked_assign_zeros [of ts "\<lambda>s. Max (set (forward T tnet s))"] len by simp
  with vs have "vs = map (\<lambda>t. case next_state t of
                          None \<Rightarrow> reward t
                        | Some s \<Rightarrow> reward t + GAMMA hp * Max (set (forward T tnet s))) ts"
    by (auto simp: map2_map_map split: option.splits intro!: map_cong)
  with ne len show ?thesis by simp
qed

text \<open>
  The values are produced whenever the batch has the size \<open>BATCH_SIZE\<close>, holds a
  transition with a next state, and the network gives every such state a non-empty row.
  A batch of terminal transitions only raises.
\<close>

lemma expected_values_total:
  assumes "length ts = nat (BATCH_SIZE hp)"
    and "non_final_next_states ts \<noteq> []"
    and "\<forall>s \<in> set (non_final_next_states ts). forward T tnet s \<noteq> []"
  shows "\<exists>vs. expected_state_action_values T hp tnet ts = Inr vs"
proof -
  from assms(3) have "\<forall>row \<in> set (map (forward T tnet) (non_final_next_states ts)). row \<noteq> []"
    by simp
  from max_values_total [OF this] obtain ms
    where "max_values (map (forward T tnet) (non_final_next_states ts)) = Some ms" ..
  with assms(1,2) show ?thesis
    by (simp add: expected_state_action_values_def Let_def)
qed

lemma expected_values_all_terminal:
  assumes "\<forall>t \<in> set ts. next_state t = None"
  shows "expected_state_action_values T hp tnet ts = Inl RuntimeError"
proof -
  from assms have "set (non_final_next_states ts) = {}"
    by (simp add: non_final_next_states_set)
  then show ?thesis
    by (simp add: expected_state_action_values_def Let_def)
qed










section \<open>Optimization step: soft update of the target network\<close>









section \<open>Action selection: effect on the program's state\<close>

text \<open>What a call of \<open>select_action\<close> computes once the threshold is evaluated.\<close>

lemma select_action_unfold:
  assumes "eps_threshold F hp (steps_done st) = Inr eps"
  shows "select_action R F T E hp x st =
     (if fgt F (fst (random_random R (rng st))) eps then
        (case max_index (forward T (policy_net st) x) of
           None \<Rightarrow> Inl RuntimeError
         | Some a \<Rightarrow>
             Inr (a, st\<lparr>rng := snd (random_random R (rng st)),
                        steps_done := steps_done st + 1\<rparr>))
      else
        Inr (fst (action_space_sample E (env st)),
             st\<lparr>rng := snd (random_random R (rng st)),
                steps_done := steps_done st + 1,
                env := snd (action_space_sample E (env st))\<rparr>))"
  using assms by (simp add: select_action_def split_beta Let_def split: option.splits)

text \<open>A call whose threshold expression raises, raises, and so returns nothing.\<close>

lemma select_action_raises:
  "eps_threshold F hp (steps_done st) = Inl e \<Longrightarrow> select_action R F T E hp x st = Inl e"
  by (simp add: select_action_def split_beta)

lemma select_action_Inr_threshold:
  assumes "select_action R F T E hp x st = Inr res"
  shows "\<exists>eps. eps_threshold F hp (steps_done st) = Inr eps"
proof (cases "eps_threshold F hp (steps_done st)")
  case (Inl e)
  from select_action_raises [OF this, of R T E x] assms show ?thesis by simp
next
  case (Inr eps)
  then show ?thesis by blast
qed

lemma max_index_Some: "qs \<noteq> [] \<Longrightarrow> \<exists>i. max_index qs = Some i"
  by (cases qs) (simp_all split: option.splits)

text \<open>
  C8, as the code has it. Every call of \<open>select_action\<close> that returns has evaluated the
  threshold without an exception and leaves the step counter one more than before, on
  either branch; the buffer, both networks' parameters and the optimizer are as
  before. The call draws from the generators, whose states advance: the generator of
  \<open>random\<close> by one draw on either branch, and the environment (the generator of its
  action space) on the exploration branch; on the greedy branch the environment is as
  before. A call returns whenever evaluating the threshold raises no exception and the
  policy network gives the state a non-empty row of action values.
\<close>

theorem select_action_effect:
  "(select_action R F T E hp x st = Inr (a, st') \<longrightarrow>
      steps_done st' = steps_done st + 1
    \<and> memory st' = memory st
    \<and> policy_net st' = policy_net st
    \<and> target_net st' = target_net st
    \<and> optimizer st' = optimizer st
    \<and> rng st' = snd (random_random R (rng st))
    \<and> (\<exists>eps. eps_threshold F hp (steps_done st) = Inr eps
         \<and> env st' =
             (if fgt F (fst (random_random R (rng st))) eps
              then env st else snd (action_space_sample E (env st))))
    \<and> st' = st\<lparr>steps_done := steps_done st + 1, rng := rng st', env := env st'\<rparr>)
   \<and> ((\<exists>eps. eps_threshold F hp (steps_done st) = Inr eps)
        \<and> forward T (policy_net st) x \<noteq> []
       \<longrightarrow> (\<exists>b st2. select_action R F T E hp x st = Inr (b, st2)))"
proof (intro conjI impI)
  assume r: "select_action R F T E hp x st = Inr (a, st')"
  from select_action_Inr_threshold [OF r] obtain eps
    where eps: "eps_threshold F hp (steps_done st) = Inr eps" ..
  from r show "steps_done st' = steps_done st + 1"
    unfolding select_action_unfold [OF eps] by (auto split: if_splits option.splits)
  from r show "memory st' = memory st"
    unfolding select_action_unfold [OF eps] by (auto split: if_splits option.splits)
  from r show "policy_net st' = policy_net st"
    unfolding select_action_unfold [OF eps] by (auto split: if_splits option.splits)
  from r show "target_net st' = target_net st"
    unfolding select_action_unfold [OF eps] by (auto split: if_splits option.splits)
  from r show "optimizer st' = optimizer st"
    unfolding select_action_unfold [OF eps] by (auto split: if_splits option.splits)
  from r show "rng st' = snd (random_random R (rng st))"
    unfolding select_action_unfold [OF eps] by (auto split: if_splits option.splits)
  from r have "env st' =
      (if fgt F (fst (random_random R (rng st))) eps
       then env st else snd (action_space_sample E (env st)))"
    unfolding select_action_unfold [OF eps] by (auto split: if_splits option.splits)
  with eps show "\<exists>eps. eps_threshold F hp (steps_done st) = Inr eps
         \<and> env st' =
             (if fgt F (fst (random_random R (rng st))) eps
              then env st else snd (action_space_sample E (env st)))"
    by blast
  from r show "st' = st\<lparr>steps_done := steps_done st + 1, rng := rng st', env := env st'\<rparr>"
    unfolding select_action_unfold [OF eps] by (auto split: if_splits option.splits)
next
  assume h: "(\<exists>eps. eps_threshold F hp (steps_done st) = Inr eps)
      \<and> forward T (policy_net st) x \<noteq> []"
  then obtain eps where eps: "eps_threshold F hp (steps_done st) = Inr eps" by blast
  from h max_index_Some obtain i where "max_index (forward T (policy_net st) x) = Some i"
    by blast
  then show "\<exists>b st2. select_action R F T E hp x st = Inr (b, st2)"
    unfolding select_action_unfold [OF eps] by simp
qed

text \<open>
  Two calls in the initial state with the counting generator, whose draw is one half,
  and arithmetic without rounding. With the notebook's values the threshold is 0.9 and
  the call explores; with \<open>EPS_START\<close> lowered to 0.1 the threshold is 0.1 and the call
  is greedy.
\<close>

lemma toy_eps_threshold:
  "eps_threshold exact_float notebook_hyper (steps_done (toy_globals ts cap)) = Inr (9 / 10)"
  by (simp add: eps_threshold_def exact_float_def notebook_hyper_def toy_globals_def)

lemma toy_eps_threshold_low:
  "eps_threshold exact_float (notebook_hyper\<lparr>EPS_START := 1 / 10\<rparr>)
     (steps_done (toy_globals ts cap)) = Inr (1 / 10)"
  by (simp add: eps_threshold_def exact_float_def notebook_hyper_def toy_globals_def)

lemma toy_select_action_explore:
  "select_action counting_random exact_float toy_torch toy_env notebook_hyper 0
       (toy_globals [] 3)
     = Inr (0, (toy_globals [] 3)\<lparr>steps_done := 1, rng := 1, env := 1\<rparr>)"
  unfolding select_action_unfold [OF toy_eps_threshold]
  by (simp add: counting_random_def exact_float_def toy_env_def toy_globals_def)

lemma toy_select_action_greedy:
  "select_action counting_random exact_float toy_torch toy_env
       (notebook_hyper\<lparr>EPS_START := 1 / 10\<rparr>) 0 (toy_globals [] 3)
     = Inr (0, (toy_globals [] 3)\<lparr>steps_done := 1, rng := 1\<rparr>)"
proof -
  have row: "max_index (forward toy_torch (policy_net (toy_globals [] 3)) 0) = Some 0"
    by (simp add: toy_torch_def toy_globals_def)
  have g: "fgt exact_float (fst (random_random counting_random (rng (toy_globals [] 3))))
      (1 / 10)"
    by (simp add: exact_float_def counting_random_def)
  show ?thesis
    unfolding select_action_unfold [OF toy_eps_threshold_low]
    by (simp only: g if_True row option.case) (simp add: counting_random_def toy_globals_def)
qed

text \<open>
  With \<open>EPS_DECAY\<close> set to 0 the division in the threshold raises, and the call raises
  with it, before the counter is incremented.
\<close>

lemma toy_select_action_zero_decay:
  "select_action counting_random exact_float toy_torch toy_env
       (notebook_hyper\<lparr>EPS_DECAY := 0\<rparr>) 0 (toy_globals [] 3)
     = Inl ZeroDivisionError"
proof -
  have "eps_threshold exact_float (notebook_hyper\<lparr>EPS_DECAY := 0\<rparr>)
      (steps_done (toy_globals [] 3)) = Inl ZeroDivisionError"
    by (simp add: eps_threshold_def exact_float_def)
  then show ?thesis by (rule select_action_raises)
qed

theorem select_action_effect_witness:
  "select_action counting_random exact_float toy_torch toy_env notebook_hyper 0
       (toy_globals [] 3)
     = Inr (0, (toy_globals [] 3)\<lparr>steps_done := 1, rng := 1, env := 1\<rparr>)
   \<and> steps_done ((toy_globals [] 3)\<lparr>steps_done := 1, rng := 1, env := 1\<rparr>)
       = steps_done (toy_globals [] 3) + 1
   \<and> memory ((toy_globals [] 3)\<lparr>steps_done := 1, rng := 1, env := 1\<rparr>)
       = memory (toy_globals [] 3)
   \<and> select_action counting_random exact_float toy_torch toy_env
         (notebook_hyper\<lparr>EPS_START := 1 / 10\<rparr>) 0 (toy_globals [] 3)
     = Inr (0, (toy_globals [] 3)\<lparr>steps_done := 1, rng := 1\<rparr>)
   \<and> steps_done ((toy_globals [] 3)\<lparr>steps_done := 1, rng := 1\<rparr>)
       = steps_done (toy_globals [] 3) + 1
   \<and> env ((toy_globals [] 3)\<lparr>steps_done := 1, rng := 1\<rparr>) = env (toy_globals [] 3)
   \<and> eps_threshold exact_float notebook_hyper (steps_done (toy_globals [] 3)) = Inr (9 / 10)
   \<and> forward toy_torch (policy_net (toy_globals [] 3)) 0 \<noteq> []
   \<and> (\<exists>b st2. select_action counting_random exact_float toy_torch toy_env notebook_hyper 0
          (toy_globals [] 3) = Inr (b, st2))"
proof -
  let ?st = "toy_globals [] 3"
  note e = select_action_effect [of counting_random exact_float toy_torch toy_env
      notebook_hyper 0 ?st 0 "?st\<lparr>steps_done := 1, rng := 1, env := 1\<rparr>"]
  note g = select_action_effect [of counting_random exact_float toy_torch toy_env
      "notebook_hyper\<lparr>EPS_START := 1 / 10\<rparr>" 0 ?st 0 "?st\<lparr>steps_done := 1, rng := 1\<rparr>"]
  from e toy_select_action_explore
  have A: "steps_done (?st\<lparr>steps_done := 1, rng := 1, env := 1\<rparr>) = steps_done ?st + 1"
    "memory (?st\<lparr>steps_done := 1, rng := 1, env := 1\<rparr>) = memory ?st"
    by blast+
  from g toy_select_action_greedy
  have B: "steps_done (?st\<lparr>steps_done := 1, rng := 1\<rparr>) = steps_done ?st + 1"
    by blast
  have B2: "env (?st\<lparr>steps_done := 1, rng := 1\<rparr>) = env ?st" by simp
  have row: "forward toy_torch (policy_net ?st) 0 \<noteq> []"
    by (simp add: toy_torch_def)
  from e toy_eps_threshold [of "[]" 3] row
  have C: "\<exists>b st2. select_action counting_random exact_float toy_torch toy_env notebook_hyper 0
      ?st = Inr (b, st2)"
    by blast
  from toy_select_action_explore A toy_select_action_greedy B B2 toy_eps_threshold [of "[]" 3]
    row C
  show ?thesis by blast
qed

text \<open>
  That every call increments the counter and changes nothing else does not hold: after
  the exploring call above the state is not the initial state with the counter
  incremented (both generators have advanced), and neither is it after the greedy call
  (the generator of \<open>random\<close> has advanced); and the call with \<open>EPS_DECAY\<close> set to 0 raises
  \<open>ZeroDivisionError\<close> in the threshold expression, the line before the increment.
\<close>

theorem select_action_changes_generators:
  "select_action counting_random exact_float toy_torch toy_env notebook_hyper 0
       (toy_globals [] 3)
     = Inr (0, (toy_globals [] 3)\<lparr>steps_done := 1, rng := 1, env := 1\<rparr>)
   \<and> (toy_globals [] 3)\<lparr>steps_done := 1, rng := 1, env := 1\<rparr>
       \<noteq> (toy_globals [] 3)\<lparr>steps_done := steps_done (toy_globals [] 3) + 1\<rparr>
   \<and> select_action counting_random exact_float toy_torch toy_env
         (notebook_hyper\<lparr>EPS_START := 1 / 10\<rparr>) 0 (toy_globals [] 3)
     = Inr (0, (toy_globals [] 3)\<lparr>steps_done := 1, rng := 1\<rparr>)
   \<and> (toy_globals [] 3)\<lparr>steps_done := 1, rng := 1\<rparr>
       \<noteq> (toy_globals [] 3)\<lparr>steps_done := steps_done (toy_globals [] 3) + 1\<rparr>
   \<and> select_action counting_random exact_float toy_torch toy_env
         (notebook_hyper\<lparr>EPS_DECAY := 0\<rparr>) 0 (toy_globals [] 3)
     = Inl ZeroDivisionError"
proof -
  have "(toy_globals [] 3)\<lparr>steps_done := 1, rng := 1, env := 1\<rparr>
       \<noteq> (toy_globals [] 3)\<lparr>steps_done := steps_done (toy_globals [] 3) + 1\<rparr>"
    by (simp add: toy_globals_def)
  moreover have "(toy_globals [] 3)\<lparr>steps_done := 1, rng := 1\<rparr>
       \<noteq> (toy_globals [] 3)\<lparr>steps_done := steps_done (toy_globals [] 3) + 1\<rparr>"
    by (simp add: toy_globals_def)
  ultimately show ?thesis
    using toy_select_action_explore toy_select_action_greedy toy_select_action_zero_decay
    by blast
qed

section \<open>Training loop: the transition stored\<close>

lemma select_action_frame:
  assumes "select_action R F T E hp x st = Inr (a, st')"
  shows "memory st' = memory st"
proof -
  from select_action_Inr_threshold [OF assms] obtain eps
    where eps: "eps_threshold F hp (steps_done st) = Inr eps" ..
  from assms show ?thesis
    unfolding select_action_unfold [OF eps]
    by (auto split: if_splits option.splits)
qed

text \<open>
  C10. In the body of the training loop, after \<open>select_action\<close> has returned the action
  and \<open>env.step\<close> the observation, the reward and the two flags: the transition pushed
  into the buffer has the state, the action and the reward of the step, and its next
  state is \<open>None\<close> if and only if \<open>terminated\<close> is set; otherwise it is the observation,
  also when \<open>truncated\<close> is set. The flag \<open>done\<close> is the disjunction of the two. Such a
  transition with a next state is bootstrapped: wherever it stands in a batch whose
  expected values are computed, its value is the reward plus \<open>GAMMA\<close> times the largest
  action value of the observation.
\<close>

theorem stored_next_state:
  fixes T :: "('s, 'o) Torch"
  assumes "select_action R F T E hp x st = Inr (a, st1)"
    and "env_step E (env st1) a = ((obs, r, terminated, truncated), e)"
  shows "\<exists>ns st'.
      store_step R F T E hp x st = Inr ((ns, terminated \<or> truncated), st')
    \<and> memory st' = push x a r ns (memory st)
    \<and> memory st' = deque_append \<lparr>state = x, action = a, reward = r, next_state = ns\<rparr> (memory st)
    \<and> (ns = None \<longleftrightarrow> terminated)
    \<and> (\<not> terminated \<longrightarrow> ns = Some obs)
    \<and> (truncated \<and> \<not> terminated \<longrightarrow> ns = Some obs)
    \<and> (0 < maxlen (memory st) \<longrightarrow>
          last (items (memory st')) = \<lparr>state = x, action = a, reward = r, next_state = ns\<rparr>)
    \<and> (\<not> terminated \<longrightarrow>
          (\<forall>(T' :: ('s, 'o) Torch) tnet ts vs i.
             expected_state_action_values T' hp tnet ts = Inr vs \<and> i < length ts
               \<and> ts ! i = \<lparr>state = x, action = a, reward = r, next_state = ns\<rparr>
             \<longrightarrow> vs ! i = r + GAMMA hp * Max (set (forward T' tnet obs))))"
proof -
  let ?ns = "if terminated then None else Some obs"
  let ?tr = "\<lparr>state = x, action = a, reward = r, next_state = ?ns\<rparr>"
  let ?st' = "st1\<lparr>env := e, memory := push x a r ?ns (memory st1)\<rparr>"
  have m1: "memory st1 = memory st"
    by (rule select_action_frame [OF assms(1)])
  have run: "store_step R F T E hp x st = Inr ((?ns, terminated \<or> truncated), ?st')"
    using assms by (simp add: store_step_def Let_def)
  have mem: "memory ?st' = push x a r ?ns (memory st)"
    by (simp add: m1)
  have app: "memory ?st' = deque_append ?tr (memory st)"
    by (simp add: m1 push_def)
  have lst: "0 < maxlen (memory st) \<longrightarrow> last (items (memory ?st')) = ?tr"
    unfolding app by (simp add: items_deque_append) (cases "items (memory st)"; simp)
  have boot: "\<not> terminated \<longrightarrow>
          (\<forall>(T' :: ('s, 'o) Torch) tnet ts vs i.
             expected_state_action_values T' hp tnet ts = Inr vs \<and> i < length ts
               \<and> ts ! i = ?tr
             \<longrightarrow> vs ! i = r + GAMMA hp * Max (set (forward T' tnet obs)))"
  proof (intro impI allI)
    fix T' :: "('s, 'o) Torch" and tnet ts vs i
    assume nt: "\<not> terminated"
      and a: "expected_state_action_values T' hp tnet ts = Inr vs \<and> i < length ts
        \<and> ts ! i = ?tr"
    from expected_values_Inr [of T' hp tnet ts vs] a
    have "vs = map (\<lambda>t. case next_state t of
                          None \<Rightarrow> reward t
                        | Some s \<Rightarrow> reward t + GAMMA hp * Max (set (forward T' tnet s))) ts"
      by simp
    with a nt show "vs ! i = r + GAMMA hp * Max (set (forward T' tnet obs))" by simp
  qed
  from run mem app lst boot show ?thesis
    by (intro exI [of _ ?ns] exI [of _ ?st']) simp
qed


text \<open>
  Two steps of the toy environment after an exploring call. From the initial state the
  step is truncated and not terminated: the transition stored keeps the observation 2.
  From the environment state 2 the step is terminated: the transition stored has no
  next state.
\<close>

lemma toy_select_action_explore_late:
  "select_action counting_random exact_float toy_torch toy_env notebook_hyper 0
       ((toy_globals [] 3)\<lparr>env := 2\<rparr>)
     = Inr (0, (toy_globals [] 3)\<lparr>steps_done := 1, rng := 1, env := 3\<rparr>)"
proof -
  have eps: "eps_threshold exact_float notebook_hyper
      (steps_done ((toy_globals [] 3)\<lparr>env := 2\<rparr>)) = Inr (9 / 10)"
    by (simp add: eps_threshold_def exact_float_def notebook_hyper_def toy_globals_def)
  show ?thesis
    unfolding select_action_unfold [OF eps]
    by (simp add: counting_random_def exact_float_def toy_env_def toy_globals_def)
qed

theorem stored_next_state_witness:
  "select_action counting_random exact_float toy_torch toy_env notebook_hyper 0 (toy_globals [] 3)
     = Inr (0, (toy_globals [] 3)\<lparr>steps_done := 1, rng := 1, env := 1\<rparr>)
   \<and> env_step toy_env (env ((toy_globals [] 3)\<lparr>steps_done := 1, rng := 1, env := 1\<rparr>)) 0
     = ((2, 1, False, True), 2)
   \<and> (\<exists>st'. store_step counting_random exact_float toy_torch toy_env notebook_hyper 0 (toy_globals [] 3)
          = Inr ((Some 2, True), st')
        \<and> items (memory st') = [\<lparr>state = 0, action = 0, reward = 1, next_state = Some 2\<rparr>])
   \<and> select_action counting_random exact_float toy_torch toy_env notebook_hyper 0
         ((toy_globals [] 3)\<lparr>env := 2\<rparr>)
     = Inr (0, (toy_globals [] 3)\<lparr>steps_done := 1, rng := 1, env := 3\<rparr>)
   \<and> env_step toy_env (env ((toy_globals [] 3)\<lparr>steps_done := 1, rng := 1, env := 3\<rparr>)) 0
     = ((4, 1, True, False), 4)
   \<and> (\<exists>st'. store_step counting_random exact_float toy_torch toy_env notebook_hyper 0
          ((toy_globals [] 3)\<lparr>env := 2\<rparr>)
          = Inr ((None, True), st')
        \<and> items (memory st') = [\<lparr>state = 0, action = 0, reward = 1, next_state = None\<rparr>])"
proof -
  let ?st = "toy_globals [] 3"
  let ?s1 = "?st\<lparr>steps_done := 1, rng := 1, env := 1\<rparr>"
  let ?s3 = "?st\<lparr>steps_done := 1, rng := 1, env := 3\<rparr>"
  have step1: "env_step toy_env (env ?s1) 0 = ((2, 1, False, True), 2)"
    by (simp add: toy_env_def)
  have step3: "env_step toy_env (env ?s3) 0 = ((4, 1, True, False), 4)"
    by (simp add: toy_env_def)
  from stored_next_state [OF toy_select_action_explore step1]
  obtain ns st' where a: "store_step counting_random exact_float toy_torch toy_env notebook_hyper 0 ?st
        = Inr ((ns, False \<or> True), st')"
      "memory st' = push 0 0 1 ns (memory ?st)" "\<not> False \<longrightarrow> ns = Some 2"
    by blast
  then have A: "\<exists>st'. store_step counting_random exact_float toy_torch toy_env notebook_hyper 0 ?st
          = Inr ((Some 2, True), st')
        \<and> items (memory st') = [\<lparr>state = 0, action = 0, reward = 1, next_state = Some 2\<rparr>]"
    by (simp add: push_def deque_append_def toy_globals_def)
  from stored_next_state [OF toy_select_action_explore_late step3]
  obtain ns' st'' where b: "store_step counting_random exact_float toy_torch toy_env notebook_hyper 0
        (?st\<lparr>env := 2\<rparr>) = Inr ((ns', True \<or> False), st'')"
      "memory st'' = push 0 0 1 ns' (memory (?st\<lparr>env := 2\<rparr>))" "ns' = None \<longleftrightarrow> True"
    by blast
  then have B: "\<exists>st'. store_step counting_random exact_float toy_torch toy_env notebook_hyper 0
          (?st\<lparr>env := 2\<rparr>) = Inr ((None, True), st')
        \<and> items (memory st') = [\<lparr>state = 0, action = 0, reward = 1, next_state = None\<rparr>]"
    by (simp add: push_def deque_append_def toy_globals_def)
  from toy_select_action_explore step1 A toy_select_action_explore_late step3 B
  show ?thesis by blast
qed

section \<open>Support vector machine: the loss of a batch\<close>








end
